theory Spec2Isabelle
  imports Main
begin

section \<open>Python values used by sudoku.py\<close>

text \<open>
  The exceptions that the modelled code can raise. \<open>SudokuError\<close> is the application's own
  exception class and carries its message; the others are Python's built-in exceptions.
\<close>

datatype error =
    SudokuError string
  | AttributeError
  | NameError
  | IndexError
  | ValueError
  | TypeError

text \<open>
  The program is Python 2: a line read from the board file is a byte string, which is a
  \<^typ>\<open>string\<close> here. \<open>str.strip\<close>, \<open>str.isdigit\<close> follow the C locale: the six ASCII
  white-space bytes and the ten ASCII digits.
\<close>

definition isspace :: "char \<Rightarrow> bool" where
  "isspace c = (c \<in> set [CHR '' '', CHR 0x09, CHR 0x0A, CHR 0x0B, CHR 0x0C, CHR 0x0D])"

definition isdigit :: "char \<Rightarrow> bool" where
  "isdigit c = (c \<in> set ''0123456789'')"

definition strip :: "string \<Rightarrow> string" where
  "strip s = rev (dropWhile isspace (rev (dropWhile isspace s)))"

definition digit_value :: "char \<Rightarrow> int" where
  "digit_value c = int (of_char c) - 48"

text \<open>
  \<open>int(s)\<close> on a string: every call in the program is guarded so that \<open>s\<close> holds digits only
  (by \<open>isdigit\<close> in the loader, by \<open>in "1234567890"\<close> in the key handler). On such a string
  the result is its decimal value, and the empty string raises \<open>ValueError\<close>.
\<close>

definition py_int :: "string \<Rightarrow> error + int" where
  "py_int s =
     (if s \<noteq> [] \<and> list_all isdigit s
      then Inr (foldl (\<lambda>a c. 10 * a + digit_value c) 0 s)
      else Inl ValueError)"

text \<open>\<open>range(a, b)\<close> and \<open>xrange(n)\<close>.\<close>

definition py_range :: "int \<Rightarrow> int \<Rightarrow> int list" where
  "py_range a b = [a..b - 1]"

definition xrange :: "nat \<Rightarrow> nat list" where
  "xrange n = [0..<n]"

text \<open>
  \<open>xs[i]\<close> and \<open>xs[i] = v\<close> on a Python list: a negative index counts from the end, and an
  index outside the list raises \<open>IndexError\<close>.
\<close>

definition getitem :: "'a list \<Rightarrow> int \<Rightarrow> error + 'a" where
  "getitem xs i =
     (let n = int (length xs); k = (if i < 0 then i + n else i)
      in if k < 0 \<or> n \<le> k then Inl IndexError else Inr (xs ! nat k))"

definition setitem :: "'a list \<Rightarrow> int \<Rightarrow> 'a \<Rightarrow> error + 'a list" where
  "setitem xs i v =
     (let n = int (length xs); k = (if i < 0 then i + n else i)
      in if k < 0 \<or> n \<le> k then Inl IndexError else Inr (xs[nat k := v]))"

text \<open>\<open>needle in hay\<close> on strings is the substring test.\<close>

fun is_prefix :: "string \<Rightarrow> string \<Rightarrow> bool" where
  "is_prefix [] hay = True"
| "is_prefix (c # cs) [] = False"
| "is_prefix (c # cs) (h # hay) = (c = h \<and> is_prefix cs hay)"

fun str_in :: "string \<Rightarrow> string \<Rightarrow> bool" where
  "str_in needle [] = (needle = [])"
| "str_in needle (h # hay) = (is_prefix needle (h # hay) \<or> str_in needle hay)"

section \<open>SudokuBoard: the loader\<close>

text \<open>
  \<open>SudokuBoard.__create_board\<close>. The argument is the sequence of lines that iterating over
  the board file yields. The inner loop appends the digits of one line to the row that was
  appended last; the outer loop strips each line and checks its length. The board is a
  local variable, so a raise leaves nothing behind.
\<close>

fun create_board_chars :: "string \<Rightarrow> int list \<Rightarrow> error + int list" where
  "create_board_chars [] row = Inr row"
| "create_board_chars (charac # rest) row =
     (if \<not> isdigit charac
      then Inl (SudokuError ''Each set of characters in the sudoku puzzle must be within 0-9'')
      else (case py_int [charac] of
              Inl e \<Rightarrow> Inl e
            | Inr v \<Rightarrow> create_board_chars rest (row @ [v])))"

fun create_board_lines :: "string list \<Rightarrow> int list list \<Rightarrow> error + int list list" where
  "create_board_lines [] board = Inr board"
| "create_board_lines (line # rest) board =
     (let line = strip line
      in if length line \<noteq> 9
         then Inl (SudokuError ''Each line in the sudoku puzzle must be 9 chars long'')
         else (case create_board_chars line [] of
                 Inl e \<Rightarrow> Inl e
               | Inr row \<Rightarrow> create_board_lines rest (board @ [row])))"

definition create_board :: "string list \<Rightarrow> error + int list list" where
  "create_board board_file =
     (case create_board_lines board_file [] of
        Inl e \<Rightarrow> Inl e
      | Inr board \<Rightarrow>
          if length board \<noteq> 9
          then Inl (SudokuError ''Error: length of board must be 9'')
          else Inr board)"

section \<open>SudokuGame: the game state\<close>

text \<open>
  A Python list of lists holds references to its rows, and the key handler of the user
  interface writes into a row in place. The rows therefore live in a store: an address is
  an index into \<open>heap\<close>, a board is the list of the addresses of its rows, and a new list
  is allocated at the end of the store. The attributes \<open>puzzle\<close> and \<open>game_over\<close> do not
  exist before the first call of \<open>start\<close>; \<open>None\<close> stands for a missing attribute.
\<close>

type_synonym addr = nat

record game =
  start_puzzle :: "addr list"
  puzzle :: "addr list option"
  game_over :: "bool option"
  heap :: "int list list"

text \<open>The cells of a board, read through the store.\<close>

definition board_of :: "int list list \<Rightarrow> addr list \<Rightarrow> int list list" where
  "board_of h b = map (\<lambda>a. h ! a) b"

text \<open>
  \<open>SudokuGame.__init__\<close>: the board that the loader returns becomes \<open>start_puzzle\<close>; its
  rows are the first objects of the store. (The attribute \<open>board_file\<close> is never read
  again and is left out.)
\<close>

definition init_game :: "string list \<Rightarrow> error + game" where
  "init_game board_file =
     (case create_board board_file of
        Inl e \<Rightarrow> Inl e
      | Inr board \<Rightarrow>
          Inr \<lparr>start_puzzle = [0..<length board], puzzle = None, game_over = None,
               heap = board\<rparr>)"

text \<open>
  \<open>SudokuGame.start\<close>. An exception leaves the state as it was when it was raised, so
  every operation returns its outcome together with the state.
\<close>

definition alloc_row :: "game \<Rightarrow> addr \<times> game" where
  "alloc_row s = (length (heap s), s\<lparr>heap := heap s @ [[]]\<rparr>)"

definition read_cell :: "game \<Rightarrow> addr list \<Rightarrow> int \<Rightarrow> int \<Rightarrow> error + int" where
  "read_cell s b i j =
     (case getitem b i of
        Inl e \<Rightarrow> Inl e
      | Inr a \<Rightarrow> getitem (heap s ! a) j)"

fun start_cols :: "nat \<Rightarrow> nat list \<Rightarrow> game \<Rightarrow> (error + unit) \<times> game" where
  "start_cols i [] s = (Inr (), s)"
| "start_cols i (j # js) s =
     (case puzzle s of
        None \<Rightarrow> (Inl AttributeError, s)
      | Some p \<Rightarrow>
          (case getitem p (int i) of
             Inl e \<Rightarrow> (Inl e, s)
           | Inr a \<Rightarrow>
               (case read_cell s (start_puzzle s) (int i) (int j) of
                  Inl e \<Rightarrow> (Inl e, s)
                | Inr v \<Rightarrow> start_cols i js (s\<lparr>heap := (heap s)[a := heap s ! a @ [v]]\<rparr>))))"

fun start_rows :: "nat list \<Rightarrow> game \<Rightarrow> (error + unit) \<times> game" where
  "start_rows [] s = (Inr (), s)"
| "start_rows (i # is) s =
     (case puzzle s of
        None \<Rightarrow> (Inl AttributeError, s)
      | Some p \<Rightarrow>
          (let (a, s1) = alloc_row s;
               s2 = s1\<lparr>puzzle := Some (p @ [a])\<rparr>
           in case start_cols i (xrange 9) s2 of
                (Inl e, s3) \<Rightarrow> (Inl e, s3)
              | (Inr u, s3) \<Rightarrow> start_rows is s3))"

definition start :: "game \<Rightarrow> (error + unit) \<times> game" where
  "start s = start_rows (xrange 9) (s\<lparr>game_over := Some False, puzzle := Some []\<rparr>)"

text \<open>
  \<open>SudokuGame.__check_block\<close>, \<open>__check_row\<close>, \<open>__check_col\<close> and \<open>__check_sqr\<close>.
  \<open>__check_col\<close> takes \<open>col\<close> and reads the name \<open>column\<close>, \<open>__check_sqr\<close> takes \<open>sqr\<close> and
  reads the names \<open>row\<close> and \<open>col\<close>; the module has no such global names, so reading them
  raises \<open>NameError\<close>: in \<open>__check_col\<close> after \<open>self.puzzle[row]\<close> has been evaluated for
  the first \<open>row\<close>, in \<open>__check_sqr\<close> at once.
\<close>

definition check_block :: "int list \<Rightarrow> bool" where
  "check_block block = (set block = set (py_range 1 10))"

definition check_row :: "game \<Rightarrow> int \<Rightarrow> error + bool" where
  "check_row s row =
     (case puzzle s of
        None \<Rightarrow> Inl AttributeError
      | Some p \<Rightarrow>
          (case getitem p row of
             Inl e \<Rightarrow> Inl e
           | Inr a \<Rightarrow> Inr (check_block (heap s ! a))))"

definition check_col :: "game \<Rightarrow> int \<Rightarrow> error + bool" where
  "check_col s col =
     (case puzzle s of
        None \<Rightarrow> Inl AttributeError
      | Some p \<Rightarrow>
          (case getitem p 0 of
             Inl e \<Rightarrow> Inl e
           | Inr a \<Rightarrow> Inl NameError))"

definition check_sqr :: "game \<Rightarrow> int \<Rightarrow> error + bool" where
  "check_sqr s sqr = Inl NameError"

text \<open>
  \<open>SudokuGame.check_win\<close>. Each loop either returns \<open>False\<close> from the method
  (\<open>Inr False\<close>) or runs to its end (\<open>Inr True\<close>). The second and third loop call
  \<open>self.__check_column\<close> and \<open>self.__check_square\<close>. The class defines neither (its methods
  are \<open>__check_col\<close> and \<open>__check_sqr\<close>), so looking the attribute up raises
  \<open>AttributeError\<close> in the first iteration.
\<close>

fun check_win_rows :: "game \<Rightarrow> nat list \<Rightarrow> error + bool" where
  "check_win_rows s [] = Inr True"
| "check_win_rows s (row # rows) =
     (case check_row s (int row) of
        Inl e \<Rightarrow> Inl e
      | Inr ok \<Rightarrow> if \<not> ok then Inr False else check_win_rows s rows)"

fun check_win_columns :: "game \<Rightarrow> nat list \<Rightarrow> error + bool" where
  "check_win_columns s [] = Inr True"
| "check_win_columns s (column # columns) = Inl AttributeError"

fun check_win_squares_inner :: "game \<Rightarrow> nat \<Rightarrow> nat list \<Rightarrow> error + bool" where
  "check_win_squares_inner s row [] = Inr True"
| "check_win_squares_inner s row (column # columns) = Inl AttributeError"

fun check_win_squares :: "game \<Rightarrow> nat list \<Rightarrow> error + bool" where
  "check_win_squares s [] = Inr True"
| "check_win_squares s (row # rows) =
     (case check_win_squares_inner s row (xrange 3) of
        Inl e \<Rightarrow> Inl e
      | Inr ok \<Rightarrow> if \<not> ok then Inr False else check_win_squares s rows)"

definition check_win :: "game \<Rightarrow> (error + bool) \<times> game" where
  "check_win s =
     (case check_win_rows s (xrange 9) of
        Inl e \<Rightarrow> (Inl e, s)
      | Inr ok1 \<Rightarrow>
          if \<not> ok1 then (Inr False, s)
          else (case check_win_columns s (xrange 9) of
                  Inl e \<Rightarrow> (Inl e, s)
                | Inr ok2 \<Rightarrow>
                    if \<not> ok2 then (Inr False, s)
                    else (case check_win_squares s (xrange 3) of
                            Inl e \<Rightarrow> (Inl e, s)
                          | Inr ok3 \<Rightarrow>
                              if \<not> ok3 then (Inr False, s)
                              else (Inr True, s\<lparr>game_over := Some True\<rparr>))))"

section \<open>SudokuUI: the key handler\<close>

text \<open>
  Of the user interface only what reads or writes the game is modelled: the selected cell
  \<open>self.row\<close>, \<open>self.col\<close> (\<open>-1\<close> when no cell is selected) and the game. Calls that only
  draw on the canvas are left out; \<open>__draw_puzzle\<close> is kept for the cells it reads.
\<close>

record ui =
  ui_game :: game
  ui_row :: int
  ui_col :: int

fun draw_puzzle_cols :: "game \<Rightarrow> nat \<Rightarrow> nat list \<Rightarrow> error + unit" where
  "draw_puzzle_cols g i [] = Inr ()"
| "draw_puzzle_cols g i (j # js) =
     (case puzzle g of
        None \<Rightarrow> Inl AttributeError
      | Some p \<Rightarrow>
          (case read_cell g p (int i) (int j) of
             Inl e \<Rightarrow> Inl e
           | Inr answer \<Rightarrow>
               if answer \<noteq> 0
               then (case read_cell g (start_puzzle g) (int i) (int j) of
                       Inl e \<Rightarrow> Inl e
                     | Inr original \<Rightarrow> draw_puzzle_cols g i js)
               else draw_puzzle_cols g i js))"

fun draw_puzzle_rows :: "game \<Rightarrow> nat list \<Rightarrow> error + unit" where
  "draw_puzzle_rows g [] = Inr ()"
| "draw_puzzle_rows g (i # is) =
     (case draw_puzzle_cols g i (xrange 9) of
        Inl e \<Rightarrow> Inl e
      | Inr u \<Rightarrow> draw_puzzle_rows g is)"

definition draw_puzzle :: "game \<Rightarrow> error + unit" where
  "draw_puzzle g = draw_puzzle_rows g (xrange 9)"

text \<open>
  \<open>SudokuUI.__key_pressed\<close>; \<open>event_char\<close> is \<open>event.char\<close>. The assignment evaluates
  \<open>int(event.char)\<close> first, then \<open>self.game.puzzle[self.row]\<close>, then stores into the row.
  \<open>__draw_victory\<close> is declared without \<open>self\<close>, so calling it as a method raises
  \<open>TypeError\<close>.
\<close>

definition key_pressed :: "ui \<Rightarrow> string \<Rightarrow> (error + unit) \<times> ui" where
  "key_pressed u event_char =
     (case game_over (ui_game u) of
        None \<Rightarrow> (Inl AttributeError, u)
      | Some over \<Rightarrow>
          if over then (Inr (), u)
          else if ui_col u \<ge> 0 \<and> ui_row u \<ge> 0 \<and> str_in event_char ''1234567890''
          then (case py_int event_char of
                  Inl e \<Rightarrow> (Inl e, u)
                | Inr v \<Rightarrow>
                    (case puzzle (ui_game u) of
                       None \<Rightarrow> (Inl AttributeError, u)
                     | Some p \<Rightarrow>
                         (case getitem p (ui_row u) of
                            Inl e \<Rightarrow> (Inl e, u)
                          | Inr a \<Rightarrow>
                              (case setitem (heap (ui_game u) ! a) (ui_col u) v of
                                 Inl e \<Rightarrow> (Inl e, u)
                               | Inr r \<Rightarrow>
                                   (let g1 = (ui_game u)\<lparr>heap := (heap (ui_game u))[a := r]\<rparr>;
                                        u1 = u\<lparr>ui_game := g1, ui_col := - 1, ui_row := - 1\<rparr>
                                    in case draw_puzzle g1 of
                                         Inl e \<Rightarrow> (Inl e, u1)
                                       | Inr d \<Rightarrow>
                                           (case check_win g1 of
                                              (Inl e, g2) \<Rightarrow> (Inl e, u1\<lparr>ui_game := g2\<rparr>)
                                            | (Inr won, g2) \<Rightarrow>
                                                if won then (Inl TypeError, u1\<lparr>ui_game := g2\<rparr>)
                                                else (Inr (), u1\<lparr>ui_game := g2\<rparr>)))))))
          else (Inr (), u))"

text \<open>
  The main program: \<open>game = SudokuGame(boards_file)\<close> followed by \<open>game.start()\<close>.
\<close>

definition new_game :: "string list \<Rightarrow> error + game" where
  "new_game board_file =
     (case init_game board_file of
        Inl e \<Rightarrow> Inl e
      | Inr g \<Rightarrow> (case start g of (Inl e, s) \<Rightarrow> Inl e | (Inr u, s) \<Rightarrow> Inr s))"

section \<open>Boards used as concrete inputs\<close>

text \<open>A board file as the program reads it: every line ends with a newline.\<close>

definition file_lines :: "string list \<Rightarrow> string list" where
  "file_lines ls = map (\<lambda>l. l @ [CHR 0x0A]) ls"

definition solved_rows :: "string list" where
  "solved_rows =
     [''534678912'', ''672195348'', ''198342567'',
      ''859761423'', ''426853791'', ''713924856'',
      ''961537284'', ''287419635'', ''345286179'']"

definition solved_board :: "int list list" where
  "solved_board =
     [[5, 3, 4, 6, 7, 8, 9, 1, 2], [6, 7, 2, 1, 9, 5, 3, 4, 8], [1, 9, 8, 3, 4, 2, 5, 6, 7],
      [8, 5, 9, 7, 6, 1, 4, 2, 3], [4, 2, 6, 8, 5, 3, 7, 9, 1], [7, 1, 3, 9, 2, 4, 8, 5, 6],
      [9, 6, 1, 5, 3, 7, 2, 8, 4], [2, 8, 7, 4, 1, 9, 6, 3, 5], [3, 4, 5, 2, 8, 6, 1, 7, 9]]"

text \<open>Nine equal rows: every row holds 1 to 9, no column does.\<close>

definition equal_rows :: "string list" where
  "equal_rows = replicate 9 ''123456789''"

text \<open>The solved board with its first cell blank.\<close>

definition blank_rows :: "string list" where
  "blank_rows = ''034678912'' # tl solved_rows"

text \<open>
  The completion check as the specification words it, on the cells of a 9x9 board: each
  of the 9 rows, the 9 columns and the 9 non-overlapping 3x3 blocks holds exactly the
  values 1 to 9. It is what \<open>check_win\<close> is compared against.
\<close>

definition spec_rows :: "int list list \<Rightarrow> int list list" where
  "spec_rows b = map (\<lambda>r. b ! r) [0..<9]"

definition spec_columns :: "int list list \<Rightarrow> int list list" where
  "spec_columns b = map (\<lambda>c. map (\<lambda>r. b ! r ! c) [0..<9]) [0..<9]"

definition spec_squares :: "int list list \<Rightarrow> int list list" where
  "spec_squares b =
     concat (map (\<lambda>br. map (\<lambda>bc.
       concat (map (\<lambda>r. map (\<lambda>c. b ! r ! c) [3 * bc..<3 * bc + 3]) [3 * br..<3 * br + 3]))
       [0..<3]) [0..<3])"

definition spec_solved :: "int list list \<Rightarrow> bool" where
  "spec_solved b =
     list_all (\<lambda>block. set block = {1, 2, 3, 4, 5, 6, 7, 8, 9})
       (spec_rows b @ spec_columns b @ spec_squares b)"

section \<open>Predicates and values used in the statements\<close>

text \<open>
  A line that the loader accepts, and the row it yields: after \<open>strip\<close> it holds exactly
  nine digits.
\<close>

definition good_line :: "string \<Rightarrow> bool" where
  "good_line l = (length (strip l) = 9 \<and> list_all isdigit (strip l))"

definition row_of_line :: "string \<Rightarrow> int list" where
  "row_of_line l = map digit_value (strip l)"

text \<open>The board file of the solved board with a space before the digits of its first line.\<close>

definition indented_lines :: "string list" where
  "indented_lines = file_lines ('' 534678912'' # tl solved_rows)"

text \<open>The lines of the solved board, each with leading and trailing white space.\<close>

definition padded_rows :: "(string \<times> string \<times> string) list" where
  "padded_rows = map (\<lambda>d. (''   '', d, [CHR '' '', CHR 0x0A])) solved_rows"

text \<open>
  The invariant of a game object: \<open>start_puzzle\<close> has 9 rows, each allocated and of 9
  cells, and the working board, once it exists, shares no row with it. The constructor
  establishes it, and \<open>start\<close>, \<open>check_win\<close> and the key handler keep it.
\<close>

definition start_board_ok :: "game \<Rightarrow> bool" where
  "start_board_ok s =
     (length (start_puzzle s) = 9 \<and>
      (\<forall>a\<in>set (start_puzzle s). a < length (heap s) \<and> length (heap s ! a) = 9))"

definition game_inv :: "game \<Rightarrow> bool" where
  "game_inv s =
     (start_board_ok s \<and>
      (case puzzle s of None \<Rightarrow> True | Some p \<Rightarrow> set p \<inter> set (start_puzzle s) = {}))"

text \<open>
  The working board is a copy of the start board that shares no row with it, and the game
  is not over: the state that \<open>start\<close> has to establish.
\<close>

definition fresh_copy :: "game \<Rightarrow> bool" where
  "fresh_copy t =
     (game_over t = Some False \<and>
      (case puzzle t of
         None \<Rightarrow> False
       | Some p \<Rightarrow>
           board_of (heap t) p = board_of (heap t) (start_puzzle t) \<and>
           set p \<inter> set (start_puzzle t) = {} \<and> distinct p))"

text \<open>
  The game object after \<open>__init__\<close> and after \<open>__init__\<close> followed by \<open>start\<close>, on a board
  file whose board is \<open>b\<close>.
\<close>

definition loaded_game :: "int list list \<Rightarrow> game" where
  "loaded_game b = \<lparr>start_puzzle = [0..<9], puzzle = None, game_over = None, heap = b\<rparr>"

definition started_game :: "int list list \<Rightarrow> game" where
  "started_game b =
     \<lparr>start_puzzle = [0..<9], puzzle = Some [9..<18], game_over = Some False, heap = b @ b\<rparr>"

text \<open>The boards of \<open>blank_rows\<close> and \<open>equal_rows\<close>.\<close>

definition blank_board :: "int list list" where
  "blank_board = [0, 3, 4, 6, 7, 8, 9, 1, 2] # tl solved_board"

definition equal_board :: "int list list" where
  "equal_board = replicate 9 [1, 2, 3, 4, 5, 6, 7, 8, 9]"

section \<open>The loader\<close>

lemma py_int_digit: "isdigit c \<Longrightarrow> py_int [c] = Inr (digit_value c)"
  by (simp add: py_int_def)

lemma create_board_chars_ok:
  "list_all isdigit cs \<Longrightarrow> create_board_chars cs row = Inr (row @ map digit_value cs)"
  by (induction cs arbitrary: row) (simp_all add: py_int_digit)

lemma create_board_chars_bad:
  "\<not> list_all isdigit cs \<Longrightarrow>
   create_board_chars cs row =
     Inl (SudokuError ''Each set of characters in the sudoku puzzle must be within 0-9'')"
  by (induction cs arbitrary: row) (auto simp: py_int_digit)

lemma create_board_lines_ok:
  "list_all good_line ls \<Longrightarrow>
   create_board_lines ls board = Inr (board @ map row_of_line ls)"
  by (induction ls arbitrary: board)
     (simp_all add: good_line_def row_of_line_def create_board_chars_ok Let_def)

lemma create_board_lines_bad:
  "\<not> list_all good_line ls \<Longrightarrow> \<exists>msg. create_board_lines ls board = Inl (SudokuError msg)"
proof (induction ls arbitrary: board)
  case Nil
  then show ?case by simp
next
  case (Cons l ls)
  show ?case
  proof (cases "good_line l")
    case True
    with Cons.prems have "\<not> list_all good_line ls" by simp
    from Cons.IH [OF this] True show ?thesis
      by (simp add: good_line_def create_board_chars_ok Let_def)
  next
    case False
    then show ?thesis
      by (auto simp: good_line_def Let_def create_board_chars_bad)
  qed
qed

lemma create_board_ok:
  "length ls = 9 \<Longrightarrow> list_all good_line ls \<Longrightarrow> create_board ls = Inr (map row_of_line ls)"
  by (simp add: create_board_def create_board_lines_ok)

lemma create_board_bad:
  "length ls \<noteq> 9 \<or> \<not> list_all good_line ls \<Longrightarrow> \<exists>msg. create_board ls = Inl (SudokuError msg)"
proof (cases "list_all good_line ls")
  case True
  assume "length ls \<noteq> 9 \<or> \<not> list_all good_line ls"
  with True show ?thesis by (simp add: create_board_def create_board_lines_ok)
next
  case False
  from create_board_lines_bad [OF this, of "[]"] show ?thesis
    by (auto simp: create_board_def)
qed

lemma strip_no_leading:
  assumes "l \<noteq> []" "\<not> isspace (hd l)" "j < length (strip l)"
  shows "strip l ! j = l ! j"
proof -
  from assms(1,2) have d: "dropWhile isspace l = l" by (cases l) simp_all
  have "rev l = takeWhile isspace (rev l) @ dropWhile isspace (rev l)" by simp
  then have "l = rev (dropWhile isspace (rev l)) @ rev (takeWhile isspace (rev l))"
    by (metis rev_append rev_rev_ident)
  then have "l = strip l @ rev (takeWhile isspace (rev l))" by (simp add: strip_def d)
  then have "l ! j = (strip l @ rev (takeWhile isspace (rev l))) ! j" by simp
  with assms(3) show ?thesis by (simp add: nth_append)
qed

lemma strip_padded:
  assumes "list_all isspace pre" "list_all isspace post" "d \<noteq> []"
    "\<not> isspace (hd d)" "\<not> isspace (last d)"
  shows "strip (pre @ d @ post) = d"
proof -
  from assms(1) have "dropWhile isspace (pre @ d @ post) = dropWhile isspace (d @ post)"
    by (intro dropWhile_append2) (simp add: list_all_iff)
  also from assms(3,4) have "\<dots> = d @ post" by (cases d) simp_all
  finally have a: "dropWhile isspace (pre @ d @ post) = d @ post" .
  from assms(2) have "dropWhile isspace (rev post @ rev d) = dropWhile isspace (rev d)"
    by (intro dropWhile_append2) (simp add: list_all_iff)
  also from assms(3,5) have "\<dots> = rev d" by (cases d rule: rev_cases) simp_all
  finally show ?thesis using a by (simp add: strip_def)
qed

lemma isdigit_not_isspace: "isdigit c \<Longrightarrow> \<not> isspace c"
  by (auto simp: isdigit_def isspace_def)

section \<open>The block validator\<close>

lemma range_1_10: "set (py_range 1 10) = {1, 2, 3, 4, 5, 6, 7, 8, 9}"
  by (auto simp: py_range_def)

text \<open>
  Claim C4. \<open>__check_block\<close> on a sequence of 9 integers returns true exactly when the set
  of its values is \<open>{1,...,9}\<close>; equivalently, exactly when no value is 0, no value is
  repeated and none of 1 to 9 is missing.
\<close>

theorem check_block_iff:
  assumes "length block = 9"
  shows "(check_block block \<longleftrightarrow> set block = {1, 2, 3, 4, 5, 6, 7, 8, 9}) \<and>
         (check_block block \<longleftrightarrow>
            0 \<notin> set block \<and> distinct block \<and> (\<forall>v\<in>{1, 2, 3, 4, 5, 6, 7, 8, 9}. v \<in> set block))"
proof -
  let ?R = "{1, 2, 3, 4, 5, 6, 7, 8, 9} :: int set"
  have cb: "check_block block \<longleftrightarrow> set block = ?R"
    by (simp only: check_block_def range_1_10)
  have cardR: "card ?R = 9" by simp
  have "set block = ?R \<longleftrightarrow> 0 \<notin> set block \<and> distinct block \<and> (\<forall>v\<in>?R. v \<in> set block)"
  proof
    assume eq: "set block = ?R"
    then have "card (set block) = length block" using assms cardR by simp
    then have "distinct block" by (rule card_distinct)
    moreover have "0 \<notin> set block" by (simp add: eq)
    moreover have "\<forall>v\<in>?R. v \<in> set block" by (simp add: eq)
    ultimately show "0 \<notin> set block \<and> distinct block \<and> (\<forall>v\<in>?R. v \<in> set block)" by blast
  next
    assume h: "0 \<notin> set block \<and> distinct block \<and> (\<forall>v\<in>?R. v \<in> set block)"
    then have sub: "?R \<subseteq> set block" by blast
    from h have "card (set block) = 9" using assms by (simp add: distinct_card)
    with cardR have "card ?R = card (set block)" by simp
    with sub show "set block = ?R"
      by (metis card_subset_eq List.finite_set)
  qed
  with cb show ?thesis by blast
qed

theorem check_block_iff_witness:
  "length [5, 3, 4, 6, 7, 8, 9, 1, 2 :: int] = 9 \<and> check_block [5, 3, 4, 6, 7, 8, 9, 1, 2] \<and>
   length [5, 3, 4, 6, 7, 8, 9, 1, 0 :: int] = 9 \<and> \<not> check_block [5, 3, 4, 6, 7, 8, 9, 1, 0] \<and>
   length [5, 3, 4, 6, 7, 8, 9, 1, 1 :: int] = 9 \<and> \<not> check_block [5, 3, 4, 6, 7, 8, 9, 1, 1]"
proof -
  have a: "length [5, 3, 4, 6, 7, 8, 9, 1, 2 :: int] = 9" by simp
  have b: "length [5, 3, 4, 6, 7, 8, 9, 1, 0 :: int] = 9" by simp
  have c: "length [5, 3, 4, 6, 7, 8, 9, 1, 1 :: int] = 9" by simp
  show ?thesis
    using check_block_iff [OF a, THEN conjunct2] check_block_iff [OF b, THEN conjunct2]
      check_block_iff [OF c, THEN conjunct2] by simp
qed

section \<open>The loader: the claims\<close>

lemma good_line_iff:
  "list_all good_line ls \<longleftrightarrow> (\<forall>l\<in>set ls. length (strip l) = 9 \<and> list_all isdigit (strip l))"
  by (simp add: list_all_iff good_line_def)

text \<open>
  Claim C2, as stated, fails on a line with leading white space. The input has 9 lines,
  each of exactly 9 digits after stripping, and its first line starts with a space: cell
  \<open>[0][3]\<close> of the board is 6, while character 3 of the first input line is the digit 4,
  and character 0 is the space, on which \<open>int\<close> raises \<open>ValueError\<close>.
\<close>

theorem create_board_raw_line_counterexample:
  "length indented_lines = 9 \<and> list_all good_line indented_lines \<and>
   create_board indented_lines = Inr solved_board \<and>
   solved_board ! 0 ! 3 = 6 \<and>
   indented_lines ! 0 ! 3 = CHR ''4'' \<and>
   int (of_char (indented_lines ! 0 ! 3)) - 48 = 4 \<and>
   indented_lines ! 0 ! 0 = CHR '' '' \<and>
   py_int [indented_lines ! 0 ! 0] = Inl ValueError"
  by code_simp

text \<open>
  Claim C2, amended. For an input of exactly 9 lines, each holding exactly 9 ASCII digits
  after stripping, the loader returns a board of 9 rows of 9 cells, and cell \<open>[i][j]\<close> is
  the integer value (the character's code less 48, a value from 0 to 9) of character \<open>j\<close>
  of line \<open>i\<close> after stripping; this is character \<open>j\<close> of the input line itself where
  the line has no leading white space.
\<close>

theorem create_board_roundtrip:
  assumes "length ls = 9"
    and "\<forall>l\<in>set ls. length (strip l) = 9 \<and> list_all isdigit (strip l)"
  shows "\<exists>board. create_board ls = Inr board \<and> length board = 9 \<and>
           (\<forall>i<9. length (board ! i) = 9 \<and>
              (\<forall>j<9. board ! i ! j = int (of_char (strip (ls ! i) ! j)) - 48 \<and>
                     0 \<le> board ! i ! j \<and> board ! i ! j \<le> 9 \<and>
                     (\<not> isspace (hd (ls ! i)) \<longrightarrow>
                        board ! i ! j = int (of_char (ls ! i ! j)) - 48)))"
proof -
  from assms have cb: "create_board ls = Inr (map row_of_line ls)"
    by (simp add: create_board_ok good_line_iff)
  have cell: "length (map row_of_line ls ! i) = 9 \<and>
      map row_of_line ls ! i ! j = int (of_char (strip (ls ! i) ! j)) - 48 \<and>
      0 \<le> map row_of_line ls ! i ! j \<and> map row_of_line ls ! i ! j \<le> 9 \<and>
      (\<not> isspace (hd (ls ! i)) \<longrightarrow>
         map row_of_line ls ! i ! j = int (of_char (ls ! i ! j)) - 48)"
    if "i < 9" "j < 9" for i j
  proof -
    from that assms(1) have mem: "ls ! i \<in> set ls" by simp
    with assms(2) have len: "length (strip (ls ! i)) = 9"
      and dig: "list_all isdigit (strip (ls ! i))" by blast+
    from dig len that(2) have d: "isdigit (strip (ls ! i) ! j)"
      by (simp add: list_all_length)
    from that assms(1) len
    have v: "map row_of_line ls ! i ! j = int (of_char (strip (ls ! i) ! j)) - 48"
      by (simp add: row_of_line_def digit_value_def)
    from d have rng: "0 \<le> int (of_char (strip (ls ! i) ! j)) - 48 \<and>
        int (of_char (strip (ls ! i) ! j)) - 48 \<le> 9"
      by (auto simp: isdigit_def)
    have ne: "ls ! i \<noteq> []" using len by (auto simp: strip_def)
    have raw: "strip (ls ! i) ! j = ls ! i ! j" if "\<not> isspace (hd (ls ! i))"
      using strip_no_leading [OF ne that] len \<open>j < 9\<close> by simp
    from that assms(1) len have "length (map row_of_line ls ! i) = 9"
      by (simp add: row_of_line_def)
    with v rng raw show ?thesis by auto
  qed
  have len: "length (map row_of_line ls) = 9" using assms(1) by simp
  from cell have all: "\<forall>i<9. length (map row_of_line ls ! i) = 9 \<and>
      (\<forall>j<9. map row_of_line ls ! i ! j = int (of_char (strip (ls ! i) ! j)) - 48 \<and>
             0 \<le> map row_of_line ls ! i ! j \<and> map row_of_line ls ! i ! j \<le> 9 \<and>
             (\<not> isspace (hd (ls ! i)) \<longrightarrow>
                map row_of_line ls ! i ! j = int (of_char (ls ! i ! j)) - 48))"
    by blast
  from cb len all show ?thesis by blast
qed

lemma board_eqI:
  assumes "length b = 9" and "length ls = 9"
    and "\<forall>l\<in>set ls. length (strip l) = 9 \<and> list_all isdigit (strip l)"
    and "\<forall>i<9. length (b ! i) = 9 \<and> (\<forall>j<9. b ! i ! j = g (strip (ls ! i) ! j))"
  shows "b = map (\<lambda>l. map g (strip l)) ls"
proof (rule nth_equalityI)
  show "length b = length (map (\<lambda>l. map g (strip l)) ls)"
    using assms(1,2) by simp
next
  fix i assume "i < length b"
  with assms(1) have i: "i < 9" by simp
  with assms(4) have len: "length (b ! i) = 9"
    and cells: "\<forall>j<9. b ! i ! j = g (strip (ls ! i) ! j)" by blast+
  from i assms(2,3) have sl: "length (strip (ls ! i)) = 9" by simp
  have "b ! i = map g (strip (ls ! i))"
  proof (rule nth_equalityI)
    show "length (b ! i) = length (map g (strip (ls ! i)))" using len sl by simp
  next
    fix j assume "j < length (b ! i)"
    with len have "j < 9" by simp
    with cells sl show "b ! i ! j = map g (strip (ls ! i)) ! j" by simp
  qed
  with i assms(2) show "b ! i = map (\<lambda>l. map g (strip l)) ls ! i" by simp
qed

lemma solved_file_values:
  "map (\<lambda>l. map (\<lambda>c. int (of_char c) - 48) (strip l)) (file_lines solved_rows) = solved_board"
  by code_simp

lemma indented_values:
  "map (\<lambda>l. map (\<lambda>c. int (of_char c) - 48) (strip l)) indented_lines = solved_board"
  by code_simp

theorem create_board_roundtrip_witness:
  "length (file_lines solved_rows) = 9 \<and> list_all good_line (file_lines solved_rows) \<and>
   create_board (file_lines solved_rows) = Inr solved_board \<and>
   length indented_lines = 9 \<and> list_all good_line indented_lines \<and>
   create_board indented_lines = Inr solved_board"
proof -
  have a1: "length (file_lines solved_rows) = 9" by code_simp
  have a2: "list_all good_line (file_lines solved_rows)" by code_simp
  have b1: "length indented_lines = 9" by code_simp
  have b2: "list_all good_line indented_lines" by code_simp
  from a2 have a3: "\<forall>l\<in>set (file_lines solved_rows).
      length (strip l) = 9 \<and> list_all isdigit (strip l)" by (simp only: good_line_iff)
  from b2 have b3: "\<forall>l\<in>set indented_lines.
      length (strip l) = 9 \<and> list_all isdigit (strip l)" by (simp only: good_line_iff)
  from create_board_roundtrip [OF a1 a3] obtain board where
    a: "create_board (file_lines solved_rows) = Inr board" "length board = 9"
       "\<forall>i<9. length (board ! i) = 9 \<and>
          (\<forall>j<9. board ! i ! j = int (of_char (strip (file_lines solved_rows ! i) ! j)) - 48)"
    by blast
  from board_eqI [OF a(2) a1 a3 a(3)] solved_file_values have "board = solved_board" by simp
  with a(1) have ra: "create_board (file_lines solved_rows) = Inr solved_board" by simp
  from create_board_roundtrip [OF b1 b3] obtain board' where
    b: "create_board indented_lines = Inr board'" "length board' = 9"
       "\<forall>i<9. length (board' ! i) = 9 \<and>
          (\<forall>j<9. board' ! i ! j = int (of_char (strip (indented_lines ! i) ! j)) - 48)"
    by blast
  from board_eqI [OF b(2) b1 b3 b(3)] indented_values have "board' = solved_board" by simp
  with b(1) have rb: "create_board indented_lines = Inr solved_board" by simp
  from a1 a2 ra b1 b2 rb show ?thesis by blast
qed

text \<open>
  Claim C3. The loader raises \<open>SudokuError\<close>, and returns no board, whenever the input is
  malformed: the number of lines is not 9, the stripped length of some line is not 9, or
  some character of a stripped line is not an ASCII digit. The instances that follow are
  an input of 8 lines, one of 10 lines, one with a line of length 8 and one with a letter
  in a line.
\<close>

theorem create_board_rejects:
  assumes "length ls \<noteq> 9 \<or>
           (\<exists>l\<in>set ls. length (strip l) \<noteq> 9 \<or> (\<exists>c\<in>set (strip l). \<not> isdigit c))"
  shows "\<exists>msg. create_board ls = Inl (SudokuError msg)"
proof -
  from assms have "length ls \<noteq> 9 \<or> \<not> list_all good_line ls"
    by (auto simp: good_line_def list_all_iff)
  then show ?thesis by (rule create_board_bad)
qed

theorem create_board_rejects_witness:
  "length (tl (file_lines solved_rows)) \<noteq> 9 \<and>
   (\<exists>msg. create_board (tl (file_lines solved_rows)) = Inl (SudokuError msg)) \<and>
   length (file_lines (''123456789'' # solved_rows)) \<noteq> 9 \<and>
   (\<exists>msg. create_board (file_lines (''123456789'' # solved_rows)) = Inl (SudokuError msg)) \<and>
   length (strip (hd (file_lines (''53467891'' # tl solved_rows)))) \<noteq> 9 \<and>
   (\<exists>msg. create_board (file_lines (''53467891'' # tl solved_rows)) = Inl (SudokuError msg)) \<and>
   \<not> isdigit (strip (hd (file_lines (''53467891x'' # tl solved_rows))) ! 8) \<and>
   (\<exists>msg. create_board (file_lines (''53467891x'' # tl solved_rows)) = Inl (SudokuError msg))"
proof -
  have a: "length (tl (file_lines solved_rows)) \<noteq> 9"
    by (simp add: file_lines_def solved_rows_def)
  have b: "length (file_lines (''123456789'' # solved_rows)) \<noteq> 9"
    by (simp add: file_lines_def solved_rows_def)
  have c: "length (strip (hd (file_lines (''53467891'' # tl solved_rows)))) \<noteq> 9"
    by (simp add: file_lines_def strip_def isspace_def)
  have d: "\<not> isdigit (strip (hd (file_lines (''53467891x'' # tl solved_rows))) ! 8)"
    by (simp add: file_lines_def strip_def isspace_def isdigit_def)
  have d': "strip (hd (file_lines (''53467891x'' # tl solved_rows))) ! 8
        \<in> set (strip (hd (file_lines (''53467891x'' # tl solved_rows))))"
    by (simp add: file_lines_def strip_def isspace_def)
  have ra: "\<exists>msg. create_board (tl (file_lines solved_rows)) = Inl (SudokuError msg)"
    using a by (intro create_board_rejects) simp
  have rb: "\<exists>msg. create_board (file_lines (''123456789'' # solved_rows)) = Inl (SudokuError msg)"
    using b by (intro create_board_rejects) simp
  have rc: "\<exists>msg. create_board (file_lines (''53467891'' # tl solved_rows)) = Inl (SudokuError msg)"
    using c by (intro create_board_rejects) (simp add: file_lines_def)
  have rd: "\<exists>msg. create_board (file_lines (''53467891x'' # tl solved_rows)) = Inl (SudokuError msg)"
    using d d' by (intro create_board_rejects) (auto simp: file_lines_def)
  from a b c d ra rb rc rd show ?thesis by blast
qed

text \<open>
  Claim C10. A line may carry white space before as well as after its digits: if each of
  the 9 lines is nine digits between two runs of white space, the loader accepts the
  input and the board holds the values of the digits. The instance that follows is an input
  whose lines start with three spaces and are longer than 9 characters.
\<close>

theorem create_board_padded:
  assumes "length ts = 9"
    and "\<forall>(pre, d, post)\<in>set ts.
           list_all isspace pre \<and> list_all isspace post \<and> length d = 9 \<and> list_all isdigit d"
  shows "create_board (map (\<lambda>(pre, d, post). pre @ d @ post) ts) =
           Inr (map (\<lambda>(pre, d, post). map digit_value d) ts)"
proof -
  have st: "strip (pre @ d @ post) = d" if "(pre, d, post) \<in> set ts" for pre d post
  proof -
    from that assms(2) have h: "list_all isspace pre" "list_all isspace post"
      "length d = 9" "list_all isdigit d" by auto
    from h(3) have ne: "d \<noteq> []" by auto
    with h(4) have "isdigit (hd d)" "isdigit (last d)" by (auto simp: list_all_iff)
    then have "\<not> isspace (hd d)" "\<not> isspace (last d)" by (auto dest: isdigit_not_isspace)
    with h ne show ?thesis by (intro strip_padded)
  qed
  let ?ls = "map (\<lambda>(pre, d, post). pre @ d @ post) ts"
  from assms(2) st have good: "list_all good_line ?ls"
    by (auto simp: list_all_iff good_line_def)
  from st have rows: "map row_of_line ?ls = map (\<lambda>(pre, d, post). map digit_value d) ts"
    by (auto simp: row_of_line_def)
  from assms(1) good rows show ?thesis by (simp add: create_board_ok)
qed

theorem create_board_padded_witness:
  "length padded_rows = 9 \<and>
   list_all (\<lambda>t. case t of (pre, d, post) \<Rightarrow>
       list_all isspace pre \<and> list_all isspace post \<and> length d = 9 \<and> list_all isdigit d)
     padded_rows \<and>
   hd (map (\<lambda>(pre, d, post). pre @ d @ post) padded_rows) = ''   534678912 '' @ [CHR 0x0A] \<and>
   9 < length (hd (map (\<lambda>(pre, d, post). pre @ d @ post) padded_rows)) \<and>
   create_board (map (\<lambda>(pre, d, post). pre @ d @ post) padded_rows) = Inr solved_board"
proof -
  have h1: "length padded_rows = 9" by (simp add: padded_rows_def solved_rows_def)
  have h2: "\<forall>(pre, d, post)\<in>set padded_rows.
           list_all isspace pre \<and> list_all isspace post \<and> length d = 9 \<and> list_all isdigit d"
    by (simp add: padded_rows_def solved_rows_def isspace_def isdigit_def)
  have v: "map (\<lambda>(pre, d, post). map digit_value d) padded_rows = solved_board"
    by (simp add: padded_rows_def solved_rows_def solved_board_def digit_value_def)
  have hdp: "hd (map (\<lambda>(pre, d, post). pre @ d @ post) padded_rows) = ''   534678912 '' @ [CHR 0x0A]"
    by (simp add: padded_rows_def solved_rows_def)
  from create_board_padded [OF h1 h2] v
  have "create_board (map (\<lambda>(pre, d, post). pre @ d @ post) padded_rows) = Inr solved_board"
    by simp
  with h1 h2 hdp show ?thesis by (simp add: list_all_iff)
qed

section \<open>The game state\<close>

lemma getitem_nat:
  "getitem xs (int i) = (if i < length xs then Inr (xs ! i) else Inl IndexError)"
  by (simp add: getitem_def Let_def)

lemma read_cell_nat:
  "i < length b \<Longrightarrow> j < length (heap s ! (b ! i)) \<Longrightarrow>
   read_cell s b (int i) (int j) = Inr (heap s ! (b ! i) ! j)"
  by (simp add: read_cell_def getitem_nat)

subsection \<open>What \<open>start\<close> leaves alone\<close>

lemma start_cols_frame:
  assumes "\<forall>p. puzzle s = Some p \<longrightarrow> (\<forall>a\<in>set p. n \<le> a)"
  shows "puzzle (snd (start_cols i js s)) = puzzle s \<and>
         start_puzzle (snd (start_cols i js s)) = start_puzzle s \<and>
         game_over (snd (start_cols i js s)) = game_over s \<and>
         length (heap (snd (start_cols i js s))) = length (heap s) \<and>
         take n (heap (snd (start_cols i js s))) = take n (heap s)"
  using assms
proof (induction js arbitrary: s)
  case Nil
  then show ?case by simp
next
  case (Cons j js)
  show ?case
  proof (cases "puzzle s")
    case None
    then show ?thesis by simp
  next
    case (Some p)
    show ?thesis
    proof (cases "i < length p")
      case False
      with Some show ?thesis by (simp add: getitem_nat)
    next
      case True
      let ?a = "p ! i"
      from True Some Cons.prems have na: "n \<le> ?a" by simp
      show ?thesis
      proof (cases "read_cell s (start_puzzle s) (int i) (int j)")
        case (Inl e)
        with Some True show ?thesis by (simp add: getitem_nat)
      next
        case (Inr v)
        let ?s1 = "s\<lparr>heap := (heap s)[?a := heap s ! ?a @ [v]]\<rparr>"
        have "\<forall>q. puzzle ?s1 = Some q \<longrightarrow> (\<forall>a\<in>set q. n \<le> a)"
          using Cons.prems by simp
        from Cons.IH [OF this] na Some True Inr show ?thesis
          by (simp add: getitem_nat)
      qed
    qed
  qed
qed

lemma start_rows_frame:
  assumes "\<forall>p. puzzle s = Some p \<longrightarrow> (\<forall>a\<in>set p. n \<le> a)" and "n \<le> length (heap s)"
  shows "start_puzzle (snd (start_rows is s)) = start_puzzle s \<and>
         game_over (snd (start_rows is s)) = game_over s \<and>
         n \<le> length (heap (snd (start_rows is s))) \<and>
         take n (heap (snd (start_rows is s))) = take n (heap s)"
  using assms
proof (induction "is" arbitrary: s)
  case Nil
  then show ?case by simp
next
  case (Cons i "is")
  show ?case
  proof (cases "puzzle s")
    case None
    with Cons.prems show ?thesis by simp
  next
    case (Some p)
    let ?a = "length (heap s)"
    let ?s2 = "s\<lparr>heap := heap s @ [[]], puzzle := Some (p @ [?a])\<rparr>"
    let ?r = "start_cols i (xrange 9) ?s2"
    have inv2: "\<forall>q. puzzle ?s2 = Some q \<longrightarrow> (\<forall>a\<in>set q. n \<le> a)"
      using Cons.prems Some by auto
    note f = start_cols_frame [OF inv2, of i "xrange 9"]
    have inv3: "\<forall>q. puzzle (snd ?r) = Some q \<longrightarrow> (\<forall>a\<in>set q. n \<le> a)"
      using f inv2 by simp
    have len3: "n \<le> length (heap (snd ?r))" using f Cons.prems(2) by simp
    note ih = Cons.IH [OF inv3 len3]
    have step: "start_rows (i # is) s =
        (case fst ?r of Inl e \<Rightarrow> (Inl e, snd ?r) | Inr u \<Rightarrow> start_rows is (snd ?r))"
      using Some by (simp add: alloc_row_def split: prod.splits sum.splits)
    show ?thesis
    proof (cases "fst ?r")
      case (Inl e)
      with step f Cons.prems(2) show ?thesis by simp
    next
      case (Inr u)
      with step ih f Cons.prems(2) show ?thesis by simp
    qed
  qed
qed

lemma start_frame:
  "start_puzzle (snd (start s)) = start_puzzle s \<and>
   length (heap s) \<le> length (heap (snd (start s))) \<and>
   take (length (heap s)) (heap (snd (start s))) = heap s"
proof -
  let ?s0 = "s\<lparr>game_over := Some False, puzzle := Some []\<rparr>"
  have "\<forall>p. puzzle ?s0 = Some p \<longrightarrow> (\<forall>a\<in>set p. length (heap s) \<le> a)" by simp
  moreover have "length (heap s) \<le> length (heap ?s0)" by simp
  ultimately show ?thesis
    using start_rows_frame [of ?s0 "length (heap s)" "xrange 9"] by (simp add: start_def)
qed

lemma board_of_take:
  assumes "\<forall>a\<in>set b. a < n" and "take n h' = take n h"
  shows "board_of h' b = board_of h b"
proof -
  have "h' ! a = h ! a" if "a \<in> set b" for a
  proof -
    from that assms(1) have "a < n" by simp
    then have "h' ! a = take n h' ! a" "h ! a = take n h ! a" by simp_all
    with assms(2) show ?thesis by simp
  qed
  then show ?thesis by (simp add: board_of_def)
qed

subsection \<open>What \<open>check_win\<close> computes\<close>

lemma check_win_state:
  "snd (check_win s) = s \<or> snd (check_win s) = s\<lparr>game_over := Some True\<rparr>"
  by (simp add: check_win_def split: sum.splits)

lemma check_win_columns_raises: "check_win_columns s (xrange 9) = Inl AttributeError"
  by (simp add: xrange_def upt_rec)

lemma check_win_eq:
  "check_win s =
     (case check_win_rows s (xrange 9) of
        Inl e \<Rightarrow> (Inl e, s)
      | Inr ok \<Rightarrow> if ok then (Inl AttributeError, s) else (Inr False, s))"
  by (simp add: check_win_def check_win_columns_raises split: sum.splits)

lemma check_win_never_true: "fst (check_win s) \<noteq> Inr True"
  by (simp add: check_win_eq split: sum.splits)

lemma check_win_unchanged: "snd (check_win s) = s"
  by (simp add: check_win_eq split: sum.splits)

lemma check_win_rows_eq:
  assumes "puzzle s = Some p" and "\<forall>r\<in>set rows. r < length p"
  shows "check_win_rows s rows = Inr (list_all (\<lambda>r. check_block (heap s ! (p ! r))) rows)"
  using assms(2)
proof (induction rows)
  case Nil
  then show ?case by simp
next
  case (Cons r rows)
  then show ?case using assms(1) by (simp add: check_row_def getitem_nat)
qed

lemma check_win_nine_rows:
  assumes "puzzle s = Some p" and "length p = 9"
  shows "check_win s =
     (if list_all check_block (board_of (heap s) p) then (Inl AttributeError, s)
      else (Inr False, s))"
proof -
  from assms(2) have "\<forall>r\<in>set (xrange 9). r < length p" by (simp add: xrange_def)
  from check_win_rows_eq [OF assms(1) this]
  have a: "check_win_rows s (xrange 9) = Inr (list_all (\<lambda>r. check_block (heap s ! (p ! r))) [0..<9])"
    by (simp add: xrange_def)
  have "map (\<lambda>r. p ! r) [0..<9] = p" using assms(2) map_nth [of p] by simp
  then have "board_of (heap s) p = map (\<lambda>r. heap s ! (p ! r)) [0..<9]"
    unfolding board_of_def by (metis (no_types, lifting) map_map o_def map_eq_conv)
  then have "list_all check_block (board_of (heap s) p)
      = list_all (\<lambda>r. check_block (heap s ! (p ! r))) [0..<9]"
    by (simp add: list_all_iff)
  with a show ?thesis by (simp add: check_win_eq)
qed

text \<open>
  On every working board that is a completed Sudoku in the specification's sense the row
  loop passes, and the call of the missing method is reached.
\<close>

lemma spec_rows_nine: "length b = 9 \<Longrightarrow> spec_rows b = b"
  using map_nth [of b] by (simp add: spec_rows_def)

lemma check_win_raises_on_solved:
  assumes "puzzle s = Some p" and "length p = 9"
    and "spec_solved (board_of (heap s) p)"
  shows "check_win s = (Inl AttributeError, s)"
proof -
  have "length (board_of (heap s) p) = 9" using assms(2) by (simp add: board_of_def)
  then have "spec_rows (board_of (heap s) p) = board_of (heap s) p" by (rule spec_rows_nine)
  with assms(3) have "list_all (\<lambda>block. set block = {1, 2, 3, 4, 5, 6, 7, 8, 9})
      (board_of (heap s) p)"
    by (simp add: spec_solved_def)
  moreover have "check_block = (\<lambda>block. set block = {1, 2, 3, 4, 5, 6, 7, 8, 9})"
    by (rule ext) (simp only: check_block_def range_1_10)
  ultimately have "list_all check_block (board_of (heap s) p)" by (simp only:)
  with check_win_nine_rows [OF assms(1,2)] show ?thesis by simp
qed

subsection \<open>What \<open>start\<close> builds\<close>

lemma start_cols_copy:
  assumes "puzzle s = Some p" "i < length p" "p ! i < length (heap s)"
    "i < length (start_puzzle s)" "start_puzzle s ! i < length (heap s)"
    "p ! i \<noteq> start_puzzle s ! i"
    "\<forall>j\<in>set js. j < length (heap s ! (start_puzzle s ! i))"
  shows "start_cols i js s =
     (Inr (), s\<lparr>heap := (heap s)[p ! i :=
        heap s ! (p ! i) @ map (\<lambda>j. heap s ! (start_puzzle s ! i) ! j) js]\<rparr>)"
  using assms
proof (induction js arbitrary: s)
  case Nil
  then show ?case by simp
next
  case (Cons j js)
  let ?a = "p ! i" and ?b = "start_puzzle s ! i"
  let ?v = "heap s ! ?b ! j"
  let ?s1 = "s\<lparr>heap := (heap s)[?a := heap s ! ?a @ [?v]]\<rparr>"
  from Cons.prems have rc: "read_cell s (start_puzzle s) (int i) (int j) = Inr ?v"
    by (simp add: read_cell_nat)
  from Cons.prems rc have step: "start_cols i (j # js) s = start_cols i js ?s1"
    by (simp add: getitem_nat)
  have hb: "heap ?s1 ! ?b = heap s ! ?b" using Cons.prems by simp
  have ha: "heap ?s1 ! ?a = heap s ! ?a @ [?v]" using Cons.prems by simp
  have "start_cols i js ?s1 =
     (Inr (), ?s1\<lparr>heap := (heap ?s1)[p ! i :=
        heap ?s1 ! (p ! i) @ map (\<lambda>j. heap ?s1 ! (start_puzzle ?s1 ! i) ! j) js]\<rparr>)"
    using Cons.prems by (intro Cons.IH) simp_all
  with step hb ha show ?case by simp
qed

lemma start_rows_copy:
  assumes "puzzle s = Some p" "length p = k" "k + m \<le> length (start_puzzle s)"
    "\<forall>a\<in>set (start_puzzle s). a < length (heap s) \<and> length (heap s ! a) = 9"
  shows "start_rows [k..<k + m] s =
     (Inr (), s\<lparr>puzzle := Some (p @ [length (heap s)..<length (heap s) + m]),
                heap := heap s @ map (\<lambda>i. heap s ! (start_puzzle s ! i)) [k..<k + m]\<rparr>)"
  using assms
proof (induction m arbitrary: s p k)
  case 0
  then show ?case by simp
next
  case (Suc m)
  let ?n = "length (heap s)"
  let ?b = "start_puzzle s ! k"
  let ?s2 = "s\<lparr>heap := heap s @ [[]], puzzle := Some (p @ [?n])\<rparr>"
  let ?s3 = "s\<lparr>heap := heap s @ [heap s ! ?b], puzzle := Some (p @ [?n])\<rparr>"
  from Suc.prems have kb: "k < length (start_puzzle s)" by simp
  then have bmem: "?b \<in> set (start_puzzle s)" by simp
  with Suc.prems(4) have b: "?b < ?n" "length (heap s ! ?b) = 9" by blast+
  have cols: "start_cols k (xrange 9) ?s2 =
     (Inr (), ?s2\<lparr>heap := (heap ?s2)[(p @ [?n]) ! k :=
        heap ?s2 ! ((p @ [?n]) ! k) @ map (\<lambda>j. heap ?s2 ! (start_puzzle ?s2 ! k) ! j) (xrange 9)]\<rparr>)"
    using Suc.prems(2) kb b by (intro start_cols_copy) (auto simp: nth_append xrange_def)
  have row: "map (\<lambda>j. heap s ! ?b ! j) [0..<9] = heap s ! ?b"
    using b(2) map_nth [of "heap s ! ?b"] by simp
  have "start_cols k (xrange 9) ?s2 = (Inr (), ?s3)"
    unfolding cols using Suc.prems(2) b row by (simp add: nth_append xrange_def)
  then have step: "start_rows (k # [Suc k..<Suc k + m]) s = start_rows [Suc k..<Suc k + m] ?s3"
    using Suc.prems(1) by (simp add: alloc_row_def)
  have ih: "start_rows [Suc k..<Suc k + m] ?s3 =
     (Inr (), ?s3\<lparr>puzzle := Some ((p @ [?n]) @ [length (heap ?s3)..<length (heap ?s3) + m]),
                  heap := heap ?s3 @ map (\<lambda>i. heap ?s3 ! (start_puzzle ?s3 ! i)) [Suc k..<Suc k + m]\<rparr>)"
    using Suc.prems by (intro Suc.IH) (auto simp: nth_append)
  have m1: "map (\<lambda>i. heap ?s3 ! (start_puzzle ?s3 ! i)) [Suc k..<Suc k + m]
      = map (\<lambda>i. heap s ! (start_puzzle s ! i)) [Suc k..<Suc k + m]"
    using Suc.prems(3,4) by (auto simp: nth_append)
  have u1: "[k..<k + Suc m] = k # [Suc k..<Suc k + m]" by (simp add: upt_conv_Cons)
  have u2: "[?n..<?n + Suc m] = ?n # [Suc ?n..<Suc ?n + m]" by (simp add: upt_conv_Cons)
  show ?case
    unfolding u1 step ih m1 u2 by simp
qed

lemma start_eq:
  assumes "start_board_ok s"
  shows "start s =
     (Inr (), s\<lparr>game_over := Some False,
                puzzle := Some [length (heap s)..<length (heap s) + 9],
                heap := heap s @ board_of (heap s) (start_puzzle s)\<rparr>)"
proof -
  let ?s0 = "s\<lparr>game_over := Some False, puzzle := Some []\<rparr>"
  from assms have len: "length (start_puzzle s) = 9"
    and rows: "\<forall>a\<in>set (start_puzzle ?s0). a < length (heap ?s0) \<and> length (heap ?s0 ! a) = 9"
    by (simp_all add: start_board_ok_def)
  have "start_rows [0..<0 + 9] ?s0 =
     (Inr (), ?s0\<lparr>puzzle := Some ([] @ [length (heap ?s0)..<length (heap ?s0) + 9]),
                heap := heap ?s0 @ map (\<lambda>i. heap ?s0 ! (start_puzzle ?s0 ! i)) [0..<0 + 9]\<rparr>)"
    using len rows by (intro start_rows_copy) simp_all
  moreover have "map (\<lambda>i. heap s ! (start_puzzle s ! i)) [0..<9] = board_of (heap s) (start_puzzle s)"
  proof -
    have "map (\<lambda>i. heap s ! (start_puzzle s ! i)) [0..<9]
        = map (\<lambda>a. heap s ! a) (map (\<lambda>i. start_puzzle s ! i) [0..<length (start_puzzle s)])"
      by (simp add: len)
    then show ?thesis by (simp only: map_nth board_of_def)
  qed
  ultimately show ?thesis by (simp add: start_def xrange_def)
qed

lemma init_game_ok:
  assumes "init_game ls = Inr g"
  shows "start_board_ok g \<and> puzzle g = None \<and> game_over g = None"
proof -
  from assms obtain b where cb: "create_board ls = Inr b"
    and g: "g = \<lparr>start_puzzle = [0..<length b], puzzle = None, game_over = None, heap = b\<rparr>"
    by (auto simp: init_game_def split: sum.splits)
  have len: "length ls = 9" and good: "list_all good_line ls"
    using cb create_board_bad [of ls] by auto
  with cb have b: "b = map row_of_line ls" by (simp add: create_board_ok)
  have "length (b ! a) = 9" if "a < 9" for a
    using that len good b by (simp add: row_of_line_def list_all_length good_line_def)
  with b len g show ?thesis by (simp add: start_board_ok_def)
qed

lemma new_game_eq:
  assumes "create_board ls = Inr b"
  shows "new_game ls = Inr (started_game b)"
proof -
  let ?g = "\<lparr>start_puzzle = [0..<length b], puzzle = None, game_over = None, heap = b\<rparr>"
  from assms have ig: "init_game ls = Inr ?g" by (simp add: init_game_def)
  from init_game_ok [OF ig] have ok: "start_board_ok ?g" by simp
  then have len: "length b = 9" by (simp add: start_board_ok_def)
  have "board_of b [0..<length b] = b" by (simp add: board_of_def map_nth)
  with start_eq [OF ok] len have "start ?g = (Inr (), started_game b)"
    by (simp add: started_game_def)
  with ig show ?thesis by (simp add: new_game_def)
qed

section \<open>The game state: the claims\<close>

lemma nth_append_upt:
  "map (\<lambda>a. (xs @ ys) ! a) [length xs..<length xs + length ys] = ys"
  by (rule nth_equalityI) (simp_all add: nth_append)

lemma board_of_append:
  "\<forall>a\<in>set b. a < length h \<Longrightarrow> board_of (h @ h') b = board_of h b"
  by (simp add: board_of_def nth_append)

lemma start_fresh_copy:
  assumes "start_board_ok s"
  shows "\<exists>s1. start s = (Inr (), s1) \<and> fresh_copy s1 \<and> start_board_ok s1 \<and>
           start_puzzle s1 = start_puzzle s \<and>
           board_of (heap s1) (start_puzzle s1) = board_of (heap s) (start_puzzle s)"
proof -
  let ?n = "length (heap s)"
  let ?B = "board_of (heap s) (start_puzzle s)"
  let ?s1 = "s\<lparr>game_over := Some False, puzzle := Some [?n..<?n + 9], heap := heap s @ ?B\<rparr>"
  from assms have len: "length (start_puzzle s) = 9"
    and addr: "\<forall>a\<in>set (start_puzzle s). a < ?n"
    and rows: "\<forall>a\<in>set (start_puzzle s). length (heap s ! a) = 9"
    by (simp_all add: start_board_ok_def)
  have lenB: "length ?B = 9" by (simp add: board_of_def len)
  have copy: "board_of (heap ?s1) [?n..<?n + 9] = ?B"
    using nth_append_upt [of "heap s" ?B] by (simp add: board_of_def len)
  have keep: "board_of (heap ?s1) (start_puzzle ?s1) = ?B"
    using addr by (simp add: board_of_append)
  have disj: "set [?n..<?n + 9] \<inter> set (start_puzzle ?s1) = {}"
    using addr by auto
  have fc: "fresh_copy ?s1"
    unfolding fresh_copy_def using copy keep disj by simp
  have ok: "start_board_ok ?s1"
    using len addr rows by (auto simp: start_board_ok_def nth_append)
  from start_eq [OF assms] fc ok keep show ?thesis by simp
qed

text \<open>
  Claim C7. On a game object (one that satisfies the invariant \<open>start_board_ok\<close>, as every
  object built by the constructor does, whatever its working board and flag are) \<open>start\<close>
  raises nothing, makes the working board a copy of the start board that shares no row
  with it, and sets \<open>game_over\<close> to false; a second call in a row does the same, and the
  start board holds the same cells throughout.
\<close>

theorem start_resets:
  assumes "start_board_ok s"
  shows "\<exists>s1 s2. start s = (Inr (), s1) \<and> fresh_copy s1 \<and>
           start_puzzle s1 = start_puzzle s \<and>
           board_of (heap s1) (start_puzzle s1) = board_of (heap s) (start_puzzle s) \<and>
           start s1 = (Inr (), s2) \<and> fresh_copy s2 \<and>
           start_puzzle s2 = start_puzzle s \<and>
           board_of (heap s2) (start_puzzle s2) = board_of (heap s) (start_puzzle s)"
proof -
  from start_fresh_copy [OF assms] obtain s1 where
    a: "start s = (Inr (), s1)" "fresh_copy s1" "start_board_ok s1"
       "start_puzzle s1 = start_puzzle s"
       "board_of (heap s1) (start_puzzle s1) = board_of (heap s) (start_puzzle s)"
    by blast
  from start_fresh_copy [OF a(3)] obtain s2 where
    b: "start s1 = (Inr (), s2)" "fresh_copy s2"
       "start_puzzle s2 = start_puzzle s1"
       "board_of (heap s2) (start_puzzle s2) = board_of (heap s1) (start_puzzle s1)"
    by blast
  from a b show ?thesis by simp
qed

theorem start_resets_witness:
  "start_board_ok (loaded_game solved_board) \<and>
   init_game (file_lines solved_rows) = Inr (loaded_game solved_board) \<and>
   (\<exists>s1 s2. start (loaded_game solved_board) = (Inr (), s1) \<and> fresh_copy s1 \<and>
      s1 = started_game solved_board \<and>
      board_of (heap s1) (start_puzzle s1) = solved_board \<and>
      start s1 = (Inr (), s2) \<and> fresh_copy s2 \<and>
      board_of (heap s2) (start_puzzle s2) = solved_board)"
proof -
  have h: "start_board_ok (loaded_game solved_board)" by code_simp
  have i: "init_game (file_lines solved_rows) = Inr (loaded_game solved_board)" by code_simp
  have e: "start (loaded_game solved_board) = (Inr (), started_game solved_board)" by code_simp
  have b: "board_of (heap (loaded_game solved_board)) (start_puzzle (loaded_game solved_board))
      = solved_board" by code_simp
  from start_resets [OF h] h i e b show ?thesis by auto
qed

text \<open>
  Claim C9. \<open>start\<close> and \<open>check_win\<close> leave \<open>start_puzzle\<close> and every cell of its rows as
  they were, whatever they return or raise; the proof for \<open>check_win\<close> covers the branch
  that sets \<open>game_over\<close>.
\<close>

theorem start_puzzle_never_mutated:
  assumes "\<forall>a\<in>set (start_puzzle s). a < length (heap s)"
  shows "start_puzzle (snd (start s)) = start_puzzle s \<and>
         board_of (heap (snd (start s))) (start_puzzle s) = board_of (heap s) (start_puzzle s) \<and>
         start_puzzle (snd (check_win s)) = start_puzzle s \<and>
         board_of (heap (snd (check_win s))) (start_puzzle s) = board_of (heap s) (start_puzzle s)"
proof -
  from start_frame [of s]
  have "take (length (heap s)) (heap (snd (start s))) = take (length (heap s)) (heap s)"
    by simp
  with assms have "board_of (heap (snd (start s))) (start_puzzle s)
      = board_of (heap s) (start_puzzle s)"
    by (intro board_of_take)
  moreover from check_win_state [of s]
  have "start_puzzle (snd (check_win s)) = start_puzzle s \<and> heap (snd (check_win s)) = heap s"
    by auto
  ultimately show ?thesis using start_frame [of s] by simp
qed

theorem start_puzzle_never_mutated_witness:
  "list_all (\<lambda>a. a < length (heap (started_game blank_board)))
     (start_puzzle (started_game blank_board)) \<and>
   start_puzzle (snd (start (started_game blank_board))) = [0..<9] \<and>
   board_of (heap (snd (start (started_game blank_board)))) [0..<9] = blank_board \<and>
   start_puzzle (snd (check_win (started_game blank_board))) = [0..<9] \<and>
   board_of (heap (snd (check_win (started_game blank_board)))) [0..<9] = blank_board"
proof -
  have h: "\<forall>a\<in>set (start_puzzle (started_game blank_board)).
             a < length (heap (started_game blank_board))" by code_simp
  have s: "start_puzzle (started_game blank_board) = [0..<9]" by code_simp
  have b: "board_of (heap (started_game blank_board)) [0..<9] = blank_board" by code_simp
  from start_puzzle_never_mutated [OF h] h s b show ?thesis
    by (simp add: list_all_iff)
qed

text \<open>
  Claim C5. If the working board has 9 rows and some cell of it is 0, \<open>check_win\<close> returns
  false and leaves the state as it was.
\<close>

theorem check_win_blank_cell:
  assumes "puzzle s = Some p" and "length p = 9"
    and "0 \<in> set (concat (board_of (heap s) p))"
  shows "check_win s = (Inr False, s)"
proof -
  from assms(3) obtain row where r: "row \<in> set (board_of (heap s) p)" "0 \<in> set row" by auto
  from r(2) have "\<not> check_block row" by (auto simp: check_block_def py_range_def)
  with r(1) have "\<not> list_all check_block (board_of (heap s) p)" by (auto simp: list_all_iff)
  with check_win_nine_rows [OF assms(1,2)] show ?thesis by simp
qed

theorem check_win_blank_cell_witness:
  "new_game (file_lines blank_rows) = Inr (started_game blank_board) \<and>
   puzzle (started_game blank_board) = Some [9..<18] \<and> length [9..<18] = 9 \<and>
   0 \<in> set (concat (board_of (heap (started_game blank_board)) [9..<18])) \<and>
   check_win (started_game blank_board) = (Inr False, started_game blank_board)"
proof -
  have n: "new_game (file_lines blank_rows) = Inr (started_game blank_board)" by code_simp
  have a: "puzzle (started_game blank_board) = Some [9..<18]" by code_simp
  have b: "length [9..<18] = 9" by simp
  have c: "0 \<in> set (concat (board_of (heap (started_game blank_board)) [9..<18]))" by code_simp
  from check_win_blank_cell [OF a b c] n a b c show ?thesis by blast
qed

text \<open>
  Claim C1. On the completed board of the specification's first scenario, which passes the
  completion check as the specification words it, \<open>check_win\<close> does not return true: it
  raises \<open>AttributeError\<close> and \<open>game_over\<close> stays false.
\<close>

theorem check_win_solved_raises:
  "new_game (file_lines solved_rows) = Inr (started_game solved_board) \<and>
   spec_solved solved_board \<and>
   check_win (started_game solved_board) = (Inl AttributeError, started_game solved_board)"
  by code_simp

text \<open>
  Claim C6. On a board of nine equal rows \<open>123456789\<close>, which is not a solution,
  \<open>check_win\<close> does not return false: it raises \<open>AttributeError\<close>. The flag is unchanged.
\<close>

theorem check_win_equal_rows_raises:
  "new_game (file_lines equal_rows) = Inr (started_game equal_board) \<and>
   \<not> spec_solved equal_board \<and>
   check_win (started_game equal_board) = (Inl AttributeError, started_game equal_board)"
  by code_simp

section \<open>The key handler\<close>

lemma isdigit_str_in: "isdigit c \<Longrightarrow> str_in [c] ''1234567890''"
  by (auto simp: isdigit_def)

lemma getitem_mem: "getitem xs i = Inr a \<Longrightarrow> a \<in> set xs"
  by (auto simp: getitem_def Let_def split: if_splits)

lemma getitem_beyond: "int (length xs) \<le> i \<Longrightarrow> getitem xs i = Inl IndexError"
  by (simp add: getitem_def Let_def)

lemma getitem_within: "0 \<le> i \<Longrightarrow> i < int (length xs) \<Longrightarrow> getitem xs i = Inr (xs ! nat i)"
  by (simp add: getitem_def Let_def)

lemma setitem_beyond: "int (length xs) \<le> i \<Longrightarrow> setitem xs i v = Inl IndexError"
  by (simp add: setitem_def Let_def)

text \<open>
  Claim C8, as stated, fails: with no cell selected (row and column \<open>-1\<close>) a digit key is
  ignored, and so is a key that is no digit on a selected cell; nothing is raised and
  nothing changes.
\<close>

theorem key_pressed_ignores_counterexample:
  "key_pressed \<lparr>ui_game = started_game blank_board, ui_row = - 1, ui_col = - 1\<rparr> ''5''
     = (Inr (), \<lparr>ui_game = started_game blank_board, ui_row = - 1, ui_col = - 1\<rparr>) \<and>
   key_pressed \<lparr>ui_game = started_game blank_board, ui_row = 0, ui_col = 0\<rparr> ''x''
     = (Inr (), \<lparr>ui_game = started_game blank_board, ui_row = 0, ui_col = 0\<rparr>)"
  by code_simp

text \<open>
  Claim C8, amended. While the game is not over, the key handler ignores a key press
  without raising and without changing anything when the row or the column is negative
  or the key's character is not in \<open>"1234567890"\<close>; for a digit key and a row or a column
  beyond the working board it raises \<open>IndexError\<close> and writes nothing.
\<close>

theorem key_pressed_out_of_range:
  assumes "game_over (ui_game u) = Some False"
  shows "(ui_row u < 0 \<or> ui_col u < 0 \<or> \<not> str_in event_char ''1234567890''
            \<longrightarrow> key_pressed u event_char = (Inr (), u)) \<and>
         (0 \<le> ui_row u \<and> 0 \<le> ui_col u \<and> isdigit c \<and> puzzle (ui_game u) = Some p \<and>
          (int (length p) \<le> ui_row u \<or>
           ui_row u < int (length p) \<and>
           int (length (heap (ui_game u) ! (p ! nat (ui_row u)))) \<le> ui_col u)
            \<longrightarrow> key_pressed u [c] = (Inl IndexError, u))"
proof (intro conjI impI)
  assume "ui_row u < 0 \<or> ui_col u < 0 \<or> \<not> str_in event_char ''1234567890''"
  with assms show "key_pressed u event_char = (Inr (), u)"
    by (auto simp: key_pressed_def)
next
  assume h: "0 \<le> ui_row u \<and> 0 \<le> ui_col u \<and> isdigit c \<and> puzzle (ui_game u) = Some p \<and>
          (int (length p) \<le> ui_row u \<or>
           ui_row u < int (length p) \<and>
           int (length (heap (ui_game u) ! (p ! nat (ui_row u)))) \<le> ui_col u)"
  then have d: "isdigit c" by simp
  from h d have g: "0 \<le> ui_col u \<and> 0 \<le> ui_row u \<and> str_in [c] ''1234567890''"
    using isdigit_str_in [OF d] by blast
  from h d have v: "py_int [c] = Inr (digit_value c)" and p: "puzzle (ui_game u) = Some p"
    by (simp_all add: py_int_digit)
  from h consider (row) "int (length p) \<le> ui_row u"
    | (col) "ui_row u < int (length p)"
        "int (length (heap (ui_game u) ! (p ! nat (ui_row u)))) \<le> ui_col u"
    by blast
  then show "key_pressed u [c] = (Inl IndexError, u)"
  proof cases
    case row
    then have "getitem p (ui_row u) = Inl IndexError" by (rule getitem_beyond)
    with assms g v p show ?thesis by (simp add: key_pressed_def)
  next
    case col
    with h have "getitem p (ui_row u) = Inr (p ! nat (ui_row u))"
      by (simp add: getitem_within)
    moreover from col(2)
    have "setitem (heap (ui_game u) ! (p ! nat (ui_row u))) (ui_col u) (digit_value c)
        = Inl IndexError" by (rule setitem_beyond)
    ultimately show ?thesis using assms g v p by (simp add: key_pressed_def)
  qed
qed

theorem key_pressed_out_of_range_witness:
  "game_over (ui_game \<lparr>ui_game = started_game blank_board, ui_row = - 1, ui_col = 0\<rparr>) = Some False \<and>
   key_pressed \<lparr>ui_game = started_game blank_board, ui_row = - 1, ui_col = 0\<rparr> ''5''
     = (Inr (), \<lparr>ui_game = started_game blank_board, ui_row = - 1, ui_col = 0\<rparr>) \<and>
   game_over (ui_game \<lparr>ui_game = started_game blank_board, ui_row = 9, ui_col = 0\<rparr>) = Some False \<and>
   isdigit CHR ''5'' \<and>
   puzzle (ui_game \<lparr>ui_game = started_game blank_board, ui_row = 9, ui_col = 0\<rparr>) = Some [9..<18] \<and>
   key_pressed \<lparr>ui_game = started_game blank_board, ui_row = 9, ui_col = 0\<rparr> ''5''
     = (Inl IndexError, \<lparr>ui_game = started_game blank_board, ui_row = 9, ui_col = 0\<rparr>)"
proof -
  let ?u = "\<lparr>ui_game = started_game blank_board, ui_row = - 1, ui_col = 0\<rparr>"
  let ?w = "\<lparr>ui_game = started_game blank_board, ui_row = 9, ui_col = 0\<rparr>"
  have a: "game_over (ui_game ?u) = Some False" by code_simp
  have b: "game_over (ui_game ?w) = Some False" by code_simp
  have d: "isdigit CHR ''5''" by code_simp
  have p: "puzzle (ui_game ?w) = Some [9..<18]" by code_simp
  from key_pressed_out_of_range [OF a, of "''5''" "CHR ''5''" "[9..<18]"]
  have r1: "key_pressed ?u ''5'' = (Inr (), ?u)" by simp
  from key_pressed_out_of_range [OF b, of "''5''" "CHR ''5''" "[9..<18]"] d p
  have r2: "key_pressed ?w ''5'' = (Inl IndexError, ?w)" by simp
  from a b d p r1 r2 show ?thesis by blast
qed

lemma board_of_update:
  "a \<notin> set b \<Longrightarrow> board_of (h[a := r]) b = board_of h b"
  by (simp add: board_of_def) (metis nth_list_update_neq)

lemma key_pressed_keeps_start_puzzle:
  assumes "puzzle (ui_game u) = Some p" and "set p \<inter> set (start_puzzle (ui_game u)) = {}"
  shows "start_puzzle (ui_game (snd (key_pressed u event_char))) = start_puzzle (ui_game u) \<and>
         board_of (heap (ui_game (snd (key_pressed u event_char)))) (start_puzzle (ui_game u))
           = board_of (heap (ui_game u)) (start_puzzle (ui_game u))"
proof -
  let ?g = "ui_game u"
  have w1: "board_of ((heap ?g)[a := r]) (start_puzzle ?g) = board_of (heap ?g) (start_puzzle ?g)"
    if "getitem p (ui_row u) = Inr a" for a r
  proof -
    from that have "a \<in> set p" by (rule getitem_mem)
    with assms(2) have "a \<notin> set (start_puzzle ?g)" by blast
    then show ?thesis by (rule board_of_update)
  qed
  have w2: "start_puzzle (snd (check_win s)) = start_puzzle s" for s
    using check_win_state [of s] by auto
  have w3: "heap (snd (check_win s)) = heap s" for s
    using check_win_state [of s] by auto
  show ?thesis
    using assms(1)
    by (simp add: key_pressed_def Let_def case_prod_beta w1 w2 w3
        split: option.split sum.split)
qed

section \<open>The invariant is kept\<close>

lemma init_game_inv: "init_game ls = Inr g \<Longrightarrow> game_inv g"
  using init_game_ok [of ls g] by (simp add: game_inv_def)

lemma start_inv:
  assumes "game_inv s"
  shows "fst (start s) = Inr () \<and> game_inv (snd (start s))"
proof -
  from assms have "start_board_ok s" by (simp add: game_inv_def)
  from start_fresh_copy [OF this] obtain s1 where
    "start s = (Inr (), s1)" "fresh_copy s1" "start_board_ok s1" by blast
  then show ?thesis
    by (auto simp: game_inv_def fresh_copy_def split: option.splits)
qed

lemma check_win_inv:
  assumes "game_inv s"
  shows "game_inv (snd (check_win s))"
proof -
  from check_win_state [of s] consider "snd (check_win s) = s"
    | "snd (check_win s) = s\<lparr>game_over := Some True\<rparr>" by blast
  then show ?thesis
  proof cases
    case 1
    with assms show ?thesis by simp
  next
    case 2
    with assms show ?thesis
      by (simp add: game_inv_def start_board_ok_def split: option.splits)
  qed
qed

lemma start_board_ok_update:
  assumes "start_board_ok s" and "a \<notin> set (start_puzzle s)"
  shows "start_board_ok (s\<lparr>heap := (heap s)[a := r]\<rparr>)"
proof -
  have "(heap s)[a := r] ! b = heap s ! b" if "b \<in> set (start_puzzle s)" for b
    using that assms(2) by (metis nth_list_update_neq)
  with assms(1) show ?thesis by (simp add: start_board_ok_def)
qed

lemma key_pressed_inv:
  assumes "game_inv (ui_game u)"
  shows "game_inv (ui_game (snd (key_pressed u event_char)))"
proof -
  let ?g = "ui_game u"
  have w1: "game_inv (?g\<lparr>heap := (heap ?g)[a := r]\<rparr>)"
    if "puzzle ?g = Some p" "getitem p (ui_row u) = Inr a" for p a r
  proof -
    from that(2) have "a \<in> set p" by (rule getitem_mem)
    with assms that(1) have "a \<notin> set (start_puzzle ?g)" by (auto simp: game_inv_def)
    with assms start_board_ok_update [of ?g a r] that(1) show ?thesis
      by (simp add: game_inv_def)
  qed
  have w2: "game_inv (snd (check_win (?g\<lparr>heap := (heap ?g)[a := r]\<rparr>)))"
    if "puzzle ?g = Some p" "getitem p (ui_row u) = Inr a" for p a r
    using w1 [OF that] by (rule check_win_inv)
  show ?thesis
    using assms
    by (simp add: key_pressed_def Let_def case_prod_beta w1 w2
        split: option.split sum.split)
qed

end
